theory Spec2Isabelle
  imports Complex_Main
begin

section \<open>The CHSH game notebook: circuit construction and winning probability\<close>

text \<open>
  The notebook \<^verbatim>\<open>4.-CHSH_CERN.ipynb\<close> defines two functions: \<^verbatim>\<open>CHSH_circuit\<close>, which
  builds the two-qubit circuit played by Alice and Bob for one pair of challenge bits, and
  \<^verbatim>\<open>winning_probability\<close>, which sends the four circuits to a backend in one batch and
  turns the returned counts into the empirical winning probability.

  Python integers are modelled as \<open>int\<close>, rotation angles as \<open>real\<close> (the angles are only
  stored in the circuit, never computed with), a counts dictionary as a map from outcome
  strings to integers, and an exception as the \<open>Inl\<close> branch of a sum. Python's true
  division of two integers returns a double: the quotient rounded to the nearest
  double, ties to the even significand. A double is modelled by the real number it
  denotes, so the two zeros are one value.
\<close>

subsection \<open>Circuits of the SDK\<close>

datatype gate =
    H nat
  | CX nat nat
  | RY real nat
  | Measure "nat list" "nat list"

record circuit =
  qubits :: nat
  clbits :: nat
  ops :: "gate list"

datatype error =
    CircuitError
  | BackendError string
  | QiskitError
  | ZeroDivisionError
  | OverflowError

definition bind_res :: "error + 'a \<Rightarrow> ('a \<Rightarrow> error + 'b) \<Rightarrow> error + 'b" where
  "bind_res r f = (case r of Inl e \<Rightarrow> Inl e | Inr v \<Rightarrow> f v)"

text \<open>
  The circuit primitives belong to the SDK. Each one appends an instruction to the
  circuit; the SDK rejects a qubit or classical bit index outside the registers, a
  controlled gate whose control and target coincide, and a measurement whose qubit and
  bit lists differ in length.
\<close>

definition QuantumCircuit :: "nat \<Rightarrow> nat \<Rightarrow> circuit" where
  "QuantumCircuit n m = \<lparr>qubits = n, clbits = m, ops = []\<rparr>"

definition circ_h :: "nat \<Rightarrow> circuit \<Rightarrow> error + circuit" where
  "circ_h q circ =
     (if q < qubits circ then Inr (circ\<lparr>ops := ops circ @ [H q]\<rparr>) else Inl CircuitError)"

definition circ_cx :: "nat \<Rightarrow> nat \<Rightarrow> circuit \<Rightarrow> error + circuit" where
  "circ_cx c t circ =
     (if c < qubits circ \<and> t < qubits circ \<and> c \<noteq> t
      then Inr (circ\<lparr>ops := ops circ @ [CX c t]\<rparr>) else Inl CircuitError)"

definition circ_ry :: "real \<Rightarrow> nat \<Rightarrow> circuit \<Rightarrow> error + circuit" where
  "circ_ry theta q circ =
     (if q < qubits circ then Inr (circ\<lparr>ops := ops circ @ [RY theta q]\<rparr>)
      else Inl CircuitError)"

definition circ_measure :: "nat list \<Rightarrow> nat list \<Rightarrow> circuit \<Rightarrow> error + circuit" where
  "circ_measure qs cs circ =
     (if list_all (\<lambda>q. q < qubits circ) qs \<and> list_all (\<lambda>c. c < clbits circ) cs
         \<and> length qs = length cs
      then Inr (circ\<lparr>ops := ops circ @ [Measure qs cs]\<rparr>) else Inl CircuitError)"

subsection \<open>\<^verbatim>\<open>CHSH_circuit\<close>\<close>

text \<open>
  \<^verbatim>\<open>
  def CHSH_circuit(x,y,a0=0,a1=np.pi/2,b0=np.pi/4,b1=-np.pi/4):
      circ = QuantumCircuit(2,2)
      circ.h(0)
      circ.cx(0,1)
      if(x==0):
          circ.ry(a0,0)
      else:
          circ.ry(a1,0)
      if(y==0):
          circ.ry(b0,1)
      else:
          circ.ry(b1,1)
      circ.measure(range(2),range(2))
      return circ
  \<close>
\<close>

definition CHSH_circuit :: "int \<Rightarrow> int \<Rightarrow> real \<Rightarrow> real \<Rightarrow> real \<Rightarrow> real \<Rightarrow> error + circuit" where
  "CHSH_circuit x y a0 a1 b0 b1 =
     bind_res (circ_h 0 (QuantumCircuit 2 2)) (\<lambda>circ.
     bind_res (circ_cx 0 1 circ) (\<lambda>circ.
     bind_res (if x = 0 then circ_ry a0 0 circ else circ_ry a1 0 circ) (\<lambda>circ.
     bind_res (if y = 0 then circ_ry b0 1 circ else circ_ry b1 1 circ) (\<lambda>circ.
     circ_measure [0..<2] [0..<2] circ))))"

text \<open>The rotation instructions of a circuit, in order: angle and qubit.\<close>

fun rotations :: "gate list \<Rightarrow> (real \<times> nat) list" where
  "rotations [] = []"
| "rotations (RY theta q # gs) = (theta, q) # rotations gs"
| "rotations (g # gs) = rotations gs"

text \<open>
  The descriptor the specification describes: the entangling preparation (Hadamard on
  qubit 0, CNOT from 0 to 1), the rotation of each party on its qubit, and the
  measurement of both qubits.
\<close>

definition chsh_descriptor :: "real \<Rightarrow> real \<Rightarrow> circuit" where
  "chsh_descriptor alpha beta =
     \<lparr>qubits = 2, clbits = 2,
      ops = [H 0, CX 0 1, RY alpha 0, RY beta 1, Measure [0, 1] [0, 1]]\<rparr>"

subsection \<open>Circuit objects and the instance counter of the SDK\<close>

text \<open>
  A circuit of the SDK is an object with a name. When no name is given, as in
  \<^verbatim>\<open>QuantumCircuit(2,2)\<close>, the constructor makes the name from the number of circuits
  created so far, a counter kept by the class, and increments the counter. A call of
  \<^verbatim>\<open>CHSH_circuit\<close> therefore reads and changes this counter, and the objects returned by
  two calls differ in their names. The name is modelled by the number it is made from.
\<close>

record circuit_object =
  name :: nat
  instructions :: circuit

definition QuantumCircuit_init :: "nat \<Rightarrow> nat \<Rightarrow> nat \<Rightarrow> circuit_object \<times> nat" where
  "QuantumCircuit_init n m instances =
     (\<lparr>name = instances, instructions = QuantumCircuit n m\<rparr>, Suc instances)"

text \<open>
  \<^verbatim>\<open>CHSH_circuit\<close> as a call in a state of the SDK: the same statements, with the counter
  passed in and returned and the instructions appended to the named object.
\<close>

definition CHSH_circuit_call ::
  "int \<Rightarrow> int \<Rightarrow> real \<Rightarrow> real \<Rightarrow> real \<Rightarrow> real \<Rightarrow> nat \<Rightarrow> error + circuit_object \<times> nat" where
  "CHSH_circuit_call x y a0 a1 b0 b1 instances =
     (case QuantumCircuit_init 2 2 instances of (circ, instances') \<Rightarrow>
      bind_res (circ_h 0 (instructions circ)) (\<lambda>c.
      bind_res (circ_cx 0 1 c) (\<lambda>c.
      bind_res (if x = 0 then circ_ry a0 0 c else circ_ry a1 0 c) (\<lambda>c.
      bind_res (if y = 0 then circ_ry b0 1 c else circ_ry b1 1 c) (\<lambda>c.
      bind_res (circ_measure [0..<2] [0..<2] c) (\<lambda>c.
      Inr (circ\<lparr>instructions := c\<rparr>, instances')))))))"

subsection \<open>The backend and \<^verbatim>\<open>winning_probability\<close>\<close>

type_synonym counts = "string \<rightharpoonup> int"

text \<open>
  A job result holds one counts dictionary per circuit of the batch, in the order of
  submission. A backend takes the batch and the number of shots and either fails or
  returns the job result.
\<close>

type_synonym job_result = "counts list"

type_synonym backend = "circuit list \<Rightarrow> int \<Rightarrow> error + job_result"

definition execute :: "circuit list \<Rightarrow> backend \<Rightarrow> int \<Rightarrow> error + job_result" where
  "execute circuits backend shots = backend circuits shots"

text \<open>
  \<^verbatim>\<open>job.result().get_counts(qc)\<close>: the SDK finds the experiment of the circuit object
  \<^verbatim>\<open>qc\<close> by the circuit's unique name; the model identifies a circuit of the batch by its
  position. Asking for an experiment the result does not hold is an error of the SDK.
\<close>

definition get_counts :: "job_result \<Rightarrow> nat \<Rightarrow> error + counts" where
  "get_counts res qc = (if qc < length res then Inr (res ! qc) else Inl QiskitError)"

text \<open>\<^verbatim>\<open>if(key in counts): total += counts[key]\<close>\<close>

definition add_count :: "counts \<Rightarrow> string \<Rightarrow> int \<Rightarrow> int" where
  "add_count cnts key tot = (case cnts key of Some v \<Rightarrow> tot + v | None \<Rightarrow> tot)"

text \<open>
  \<^verbatim>\<open>
  for qc in circuits[0:3]:
      counts = job.result().get_counts(qc)
      if('00' in counts):
          total += counts['00']
      if('11' in counts):
          total += counts['11']
  \<close>
\<close>

fun equal_outputs_loop :: "job_result \<Rightarrow> nat list \<Rightarrow> int \<Rightarrow> error + int" where
  "equal_outputs_loop res [] tot = Inr tot"
| "equal_outputs_loop res (qc # qcs) tot =
     bind_res (get_counts res qc) (\<lambda>cnts.
       equal_outputs_loop res qcs (add_count cnts ''11'' (add_count cnts ''00'' tot)))"

text \<open>
  Python's \<^verbatim>\<open>a / b\<close> on integers. Division by zero raises \<^verbatim>\<open>ZeroDivisionError\<close>.
  Otherwise the exact quotient is rounded to the nearest double: a double is an integer
  of at most 53 bits times a power of two, the exponent of the power being at least
  \<open>-1074\<close>; a quotient half way between two doubles goes to the one with the even
  integer. When the rounded quotient is \<open>2\<^sup>1\<^sup>0\<^sup>2\<^sup>4\<close> or more in magnitude, beyond the largest
  double, the division raises \<^verbatim>\<open>OverflowError\<close>.
\<close>

definition round_half_even :: "real \<Rightarrow> int" where
  "round_half_even x =
     (let f = \<lfloor>x\<rfloor>; r = x - of_int f
      in if r < 1 / 2 then f else if 1 / 2 < r then f + 1 else if even f then f else f + 1)"

definition double_exponent :: "real \<Rightarrow> int" where
  "double_exponent x = max (\<lfloor>log 2 \<bar>x\<bar>\<rfloor> - 52) (- 1074)"

definition double_round :: "real \<Rightarrow> real" where
  "double_round x =
     (if x = 0 then 0
      else sgn x * real_of_int (round_half_even (\<bar>x\<bar> / 2 powr real_of_int (double_exponent x)))
             * 2 powr real_of_int (double_exponent x))"

definition double_overflow :: real where
  "double_overflow = 2 ^ 1024"

definition true_div :: "int \<Rightarrow> int \<Rightarrow> error + real" where
  "true_div a b =
     (if b = 0 then Inl ZeroDivisionError
      else let r = double_round (real_of_int a / real_of_int b)
           in if double_overflow \<le> \<bar>r\<bar> then Inl OverflowError else Inr r)"

text \<open>
  \<^verbatim>\<open>
  def winning_probability(backend, shots = 8192, a0=0,a1=np.pi/2,b0=np.pi/4,b1=-np.pi/4):
      total = 0
      circuits = [CHSH_circuit(0,0,a0,a1,b0,b1), CHSH_circuit(0,1,a0,a1,b0,b1),
                  CHSH_circuit(1,0,a0,a1,b0,b1), CHSH_circuit(1,1,a0,a1,b0,b1)]
      job = execute(circuits, backend=backend, shots = shots)
      for qc in circuits[0:3]: ...
      counts = job.result().get_counts(circuits[3])
      if('01' in counts):
          total += counts['01']
      if('10' in counts):
          total += counts['10']
      return total/(4*shots)
  \<close>
\<close>

definition winning_probability ::
  "backend \<Rightarrow> int \<Rightarrow> real \<Rightarrow> real \<Rightarrow> real \<Rightarrow> real \<Rightarrow> error + real" where
  "winning_probability backend shots a0 a1 b0 b1 =
     bind_res (CHSH_circuit 0 0 a0 a1 b0 b1) (\<lambda>c00.
     bind_res (CHSH_circuit 0 1 a0 a1 b0 b1) (\<lambda>c01.
     bind_res (CHSH_circuit 1 0 a0 a1 b0 b1) (\<lambda>c10.
     bind_res (CHSH_circuit 1 1 a0 a1 b0 b1) (\<lambda>c11.
     bind_res (execute [c00, c01, c10, c11] backend shots) (\<lambda>res.
     bind_res (equal_outputs_loop res [0..<3] 0) (\<lambda>tot.
     bind_res (get_counts res 3) (\<lambda>cnts.
     true_div (add_count cnts ''10'' (add_count cnts ''01'' tot)) (4 * shots))))))))"

text \<open>The batch of four descriptors that \<^verbatim>\<open>winning_probability\<close> submits.\<close>

definition chsh_batch :: "real \<Rightarrow> real \<Rightarrow> real \<Rightarrow> real \<Rightarrow> circuit list" where
  "chsh_batch a0 a1 b0 b1 =
     [chsh_descriptor a0 b0, chsh_descriptor a0 b1,
      chsh_descriptor a1 b0, chsh_descriptor a1 b1]"

text \<open>The count of an outcome, an absent outcome counting zero.\<close>

definition count_of :: "counts \<Rightarrow> string \<Rightarrow> int" where
  "count_of cnts key = (case cnts key of None \<Rightarrow> 0 | Some v \<Rightarrow> v)"

text \<open>
  The winning counts of a response: outcomes 00 and 11 of the first three descriptors,
  outcomes 01 and 10 of the fourth.
\<close>

definition win_sum :: "job_result \<Rightarrow> int" where
  "win_sum res =
     count_of (res ! 0) ''00'' + count_of (res ! 0) ''11''
   + count_of (res ! 1) ''00'' + count_of (res ! 1) ''11''
   + count_of (res ! 2) ''00'' + count_of (res ! 2) ''11''
   + count_of (res ! 3) ''01'' + count_of (res ! 3) ''10''"

subsection \<open>Responses within the shot count\<close>

text \<open>
  The counts of two outcomes are non-negative and together at most the number of shots,
  as they are when a backend reports what it observed in that many runs.
\<close>

definition wins_within :: "int \<Rightarrow> counts \<Rightarrow> string \<Rightarrow> string \<Rightarrow> bool" where
  "wins_within shots cnts k1 k2 \<longleftrightarrow>
     0 \<le> count_of cnts k1 \<and> 0 \<le> count_of cnts k2
     \<and> count_of cnts k1 + count_of cnts k2 \<le> shots"

subsection \<open>Backend stubs\<close>

text \<open>A stub that answers every request with the same job result.\<close>

definition const_backend :: "job_result \<Rightarrow> backend" where
  "const_backend res circuits shots = Inr res"

text \<open>
  A deterministic simulator stub with a seed: the experiment at position \<open>i\<close> of a
  request is sampled from the seed plus \<open>i\<close>, and every experiment reports exactly
  \<open>shots\<close> outcomes.
\<close>

definition seeded_counts :: "int \<Rightarrow> int \<Rightarrow> counts" where
  "seeded_counts seed shots =
     (let e = (seed * seed) mod (shots + 1)
      in map_of [(''00'', e), (''01'', shots - e)])"

definition seeded_backend :: "int \<Rightarrow> backend" where
  "seeded_backend seed circuits shots =
     Inr (map (\<lambda>i. seeded_counts (seed + int i) shots) [0..<length circuits])"

text \<open>
  The ideal distribution of the game at the default angles: each descriptor wins with
  probability \<open>cos\<^sup>2 (\<pi>/8)\<close>, the two winning outcomes being equally likely, and so
  are the two losing ones. The stub reports these expectations for the given number of
  shots, each rounded to the nearest integer.
\<close>

definition theoretical_wins :: "int \<Rightarrow> int" where
  "theoretical_wins shots = round (real_of_int shots * (cos (pi / 8))\<^sup>2)"

definition theoretical_counts :: "int \<Rightarrow> bool \<Rightarrow> counts" where
  "theoretical_counts shots equal_wins =
     (let w = round (real_of_int shots * (cos (pi / 8))\<^sup>2 / 2);
          l = round (real_of_int shots * (sin (pi / 8))\<^sup>2 / 2)
      in if equal_wins
         then map_of [(''00'', w), (''11'', w), (''01'', l), (''10'', l)]
         else map_of [(''00'', l), (''11'', l), (''01'', w), (''10'', w)])"

definition theoretical_backend :: backend where
  "theoretical_backend circuits shots =
     Inr [theoretical_counts shots True, theoretical_counts shots True,
          theoretical_counts shots True, theoretical_counts shots False]"

text \<open>
  A stub that treats every descriptor of a request alike and on its own: each experiment
  reports all its shots on the outcome 00.
\<close>

definition echo_backend :: backend where
  "echo_backend circuits shots = Inr (map (\<lambda>qc. map_of [(''00'', shots)]) circuits)"

subsection \<open>Four independent requests\<close>

text \<open>
  The specification compares the batched request with four independent requests of one
  descriptor each, with the same number of shots. One such request, and the counts of
  its only experiment:
\<close>

definition single_request :: "backend \<Rightarrow> int \<Rightarrow> circuit \<Rightarrow> error + counts" where
  "single_request backend shots qc =
     bind_res (execute [qc] backend shots) (\<lambda>res. get_counts res 0)"

text \<open>
  The estimator of the specification's comparison: the same circuits and the same
  aggregation as \<^verbatim>\<open>winning_probability\<close>, each circuit sent in a request of its own.
\<close>

definition winning_probability_separate ::
  "backend \<Rightarrow> int \<Rightarrow> real \<Rightarrow> real \<Rightarrow> real \<Rightarrow> real \<Rightarrow> error + real" where
  "winning_probability_separate backend shots a0 a1 b0 b1 =
     bind_res (CHSH_circuit 0 0 a0 a1 b0 b1) (\<lambda>c00.
     bind_res (CHSH_circuit 0 1 a0 a1 b0 b1) (\<lambda>c01.
     bind_res (CHSH_circuit 1 0 a0 a1 b0 b1) (\<lambda>c10.
     bind_res (CHSH_circuit 1 1 a0 a1 b0 b1) (\<lambda>c11.
     bind_res (single_request backend shots c00) (\<lambda>n00.
     bind_res (single_request backend shots c01) (\<lambda>n01.
     bind_res (single_request backend shots c10) (\<lambda>n10.
     bind_res (single_request backend shots c11) (\<lambda>n11.
     true_div
       (add_count n11 ''10'' (add_count n11 ''01''
         (add_count n10 ''11'' (add_count n10 ''00''
           (add_count n01 ''11'' (add_count n01 ''00''
             (add_count n00 ''11'' (add_count n00 ''00'' 0))))))))
       (4 * shots)))))))))"

text \<open>
  The contract on the backend: its answer to a batch is, position by position, its
  answer to the request of that one descriptor; it fails on the batch with the error of
  the first descriptor it fails on.
\<close>

fun run_all :: "('a \<Rightarrow> error + 'b) \<Rightarrow> 'a list \<Rightarrow> error + 'b list" where
  "run_all f [] = Inr []"
| "run_all f (x # xs) =
     bind_res (f x) (\<lambda>r. bind_res (run_all f xs) (\<lambda>rs. Inr (r # rs)))"

definition batch_independent :: "backend \<Rightarrow> int \<Rightarrow> circuit list \<Rightarrow> bool" where
  "batch_independent backend shots circuits \<longleftrightarrow>
     backend circuits shots = run_all (single_request backend shots) circuits"

section \<open>Properties of \<^verbatim>\<open>CHSH_circuit\<close>\<close>

lemma upt_0_2: "[0..<2] = [0, Suc 0]"
  by (simp add: numeral_2_eq_2)

lemma upt_0_3: "[0..<3] = [0, Suc 0, 2]"
  by (simp add: numeral_3_eq_3 numeral_2_eq_2)

lemma CHSH_circuit_eq:
  "CHSH_circuit x y a0 a1 b0 b1 =
     Inr (chsh_descriptor (if x = 0 then a0 else a1) (if y = 0 then b0 else b1))"
  by (simp add: CHSH_circuit_def bind_res_def circ_h_def circ_cx_def circ_ry_def
      circ_measure_def QuantumCircuit_def chsh_descriptor_def upt_0_2)

text \<open>
  Claim C2. For challenge bits \<open>x\<close> and \<open>y\<close> in \<open>{0, 1}\<close> and any angles, the circuit
  built is: Hadamard on qubit 0, CNOT from qubit 0 to qubit 1, Alice's rotation on qubit 0
  by \<open>a0\<close> if \<open>x = 0\<close> and by \<open>a1\<close> otherwise, Bob's rotation on qubit 1 by \<open>b0\<close> if
  \<open>y = 0\<close> and by \<open>b1\<close> otherwise, and the measurement of both qubits into both bits.
\<close>

theorem CHSH_circuit_descriptor:
  assumes "x \<in> {0, 1}" and "y \<in> {0, 1}"
  shows "CHSH_circuit x y a0 a1 b0 b1 =
     Inr \<lparr>qubits = 2, clbits = 2,
          ops = [H 0, CX 0 1,
                 RY (if x = 0 then a0 else a1) 0,
                 RY (if y = 0 then b0 else b1) 1,
                 Measure [0, 1] [0, 1]]\<rparr>"
  by (simp add: CHSH_circuit_eq chsh_descriptor_def)

theorem CHSH_circuit_descriptor_witness:
  "(1::int) \<in> {0, 1} \<and> (0::int) \<in> {0, 1} \<and>
   CHSH_circuit 1 0 0 (pi / 2) (pi / 4) (- pi / 4) =
     Inr \<lparr>qubits = 2, clbits = 2,
          ops = [H 0, CX 0 1, RY (pi / 2) 0, RY (pi / 4) 1, Measure [0, 1] [0, 1]]\<rparr>"
  using CHSH_circuit_descriptor [of 1 0 0 "pi / 2" "pi / 4" "- pi / 4"] by simp

text \<open>
  Claim C4, as stated, fails: a selector outside \<open>{0, 1}\<close> is not rejected. With
  \<open>x = 2\<close> and \<open>y = -1\<close> the call returns a circuit, the one of \<open>x = 1\<close>, \<open>y = 1\<close>.
\<close>

theorem CHSH_circuit_invalid_selector_accepted:
  "CHSH_circuit 2 (- 1) 0 1 2 3 =
     Inr \<lparr>qubits = 2, clbits = 2,
          ops = [H 0, CX 0 1, RY 1 0, RY 3 1, Measure [0, 1] [0, 1]]\<rparr>
   \<and> \<not> isl (CHSH_circuit 2 (- 1) 0 1 2 3)"
  by (simp add: CHSH_circuit_eq chsh_descriptor_def)

text \<open>
  Claim C4, amended. \<^verbatim>\<open>CHSH_circuit\<close> validates nothing: it never fails, and a
  selector other than 0 chooses the second angle, exactly as the selector 1 does.
\<close>

theorem CHSH_circuit_no_validation:
  "\<not> isl (CHSH_circuit x y a0 a1 b0 b1) \<and>
   CHSH_circuit x y a0 a1 b0 b1 =
     CHSH_circuit (if x = 0 then 0 else 1) (if y = 0 then 0 else 1) a0 a1 b0 b1"
  by (simp add: CHSH_circuit_eq)

theorem CHSH_circuit_no_validation_witness:
  "\<not> isl (CHSH_circuit 7 0 0 1 2 3) \<and>
   CHSH_circuit 7 0 0 1 2 3 = CHSH_circuit 1 0 0 1 2 3"
  using CHSH_circuit_no_validation [of 7 0 0 1 2 3, simplified] by blast

lemma CHSH_circuit_call_eq:
  "CHSH_circuit_call x y a0 a1 b0 b1 n =
     Inr (\<lparr>name = n,
           instructions =
             chsh_descriptor (if x = 0 then a0 else a1) (if y = 0 then b0 else b1)\<rparr>,
          Suc n)"
  by (simp add: CHSH_circuit_call_def QuantumCircuit_init_def bind_res_def circ_h_def
      circ_cx_def circ_ry_def circ_measure_def QuantumCircuit_def chsh_descriptor_def upt_0_2)

text \<open>The objects returned in two different states of the SDK are different objects.\<close>

lemma CHSH_circuit_call_names_differ:
  "n \<noteq> n' \<Longrightarrow>
   CHSH_circuit_call x y a0 a1 b0 b1 n \<noteq> CHSH_circuit_call x y a0 a1 b0 b1 n'"
  by (simp add: CHSH_circuit_call_eq)

text \<open>
  Claim C8. Two calls of \<^verbatim>\<open>CHSH_circuit\<close> with the same valid selectors and the same
  angles, made in any two states \<open>n\<close> and \<open>n'\<close> of the SDK's instance counter, both
  return a circuit, and the two circuits have the same rotation choices: the same
  angles on the same qubits, in the same order.
\<close>

theorem CHSH_circuit_call_deterministic:
  assumes "x \<in> {0, 1}" and "y \<in> {0, 1}"
  shows "\<exists>qc qc' k k'.
      CHSH_circuit_call x y a0 a1 b0 b1 n = Inr (qc, k)
    \<and> CHSH_circuit_call x y a0 a1 b0 b1 n' = Inr (qc', k')
    \<and> rotations (ops (instructions qc)) = rotations (ops (instructions qc'))"
  by (simp add: CHSH_circuit_call_eq)

theorem CHSH_circuit_call_deterministic_witness:
  "(0::int) \<in> {0, 1} \<and> (1::int) \<in> {0, 1} \<and>
   (\<exists>qc qc' k k'.
      CHSH_circuit_call 0 1 0 1 2 3 0 = Inr (qc, k)
    \<and> CHSH_circuit_call 0 1 0 1 2 3 5 = Inr (qc', k')
    \<and> rotations (ops (instructions qc)) = rotations (ops (instructions qc')))"
  using CHSH_circuit_call_deterministic [of 0 1 0 1 2 3 0 5] by simp

section \<open>Properties of Python's true division\<close>

lemma round_half_even_of_int: "round_half_even (of_int n) = n"
  by (simp add: round_half_even_def)

lemma round_half_even_lower:
  assumes "of_int n \<le> x"
  shows "n \<le> round_half_even x"
proof -
  have "n \<le> \<lfloor>x\<rfloor>"
    using assms by (simp add: le_floor_iff)
  then show ?thesis
    unfolding round_half_even_def Let_def by simp
qed

lemma round_half_even_upper:
  assumes "x \<le> of_int n"
  shows "round_half_even x \<le> n"
proof (cases "x = of_int n")
  case True
  then show ?thesis by (simp add: round_half_even_of_int)
next
  case False
  with assms have "x < of_int n" by simp
  then have "\<lfloor>x\<rfloor> < n" by (simp add: floor_less_iff)
  then have "\<lfloor>x\<rfloor> \<le> n" "\<lfloor>x\<rfloor> + 1 \<le> n" by simp_all
  then show ?thesis unfolding round_half_even_def Let_def by simp
qed

lemma round_half_even_error: "\<bar>real_of_int (round_half_even x) - x\<bar> \<le> 1 / 2"
  unfolding round_half_even_def Let_def by (simp; linarith)

lemma floor_log2_lower:
  assumes "0 < x"
  shows "2 powr real_of_int \<lfloor>log 2 x\<rfloor> \<le> x"
  using floor_log_eq_powr_iff [of x 2 "\<lfloor>log 2 x\<rfloor>"] assms by simp

lemma floor_log2_eq:
  assumes "0 < x" and "2 powr real_of_int k \<le> x" and "x < 2 powr (real_of_int k + 1)"
  shows "\<lfloor>log 2 x\<rfloor> = k"
  using floor_log_eq_powr_iff [of x 2 k] assms by simp

lemma double_overflow_gt: "2 ^ 53 < double_overflow"
  unfolding double_overflow_def by (rule power_strict_increasing) simp_all

lemma double_overflow_pos: "0 < double_overflow"
  by (simp add: double_overflow_def)

lemma double_round_scaled:
  assumes "x \<noteq> 0"
  shows "double_round x =
     sgn x * (real_of_int (round_half_even (\<bar>x\<bar> / 2 powr real_of_int (double_exponent x)))
              * 2 powr real_of_int (double_exponent x))"
  using assms by (simp add: double_round_def)

lemma abs_double_round:
  assumes "x \<noteq> 0"
  shows "\<bar>double_round x\<bar> =
     real_of_int (round_half_even (\<bar>x\<bar> / 2 powr real_of_int (double_exponent x)))
       * 2 powr real_of_int (double_exponent x)"
proof -
  have "0 \<le> \<bar>x\<bar> / 2 powr real_of_int (double_exponent x)"
    by simp
  then have "0 \<le> round_half_even (\<bar>x\<bar> / 2 powr real_of_int (double_exponent x))"
    using round_half_even_lower [of 0] by simp
  then show ?thesis
    using assms by (simp add: double_round_scaled abs_mult abs_sgn_eq)
qed

text \<open>A quotient that is a double already is returned as it is.\<close>

lemma double_round_exact:
  assumes "\<bar>x\<bar> / 2 powr real_of_int (double_exponent x) = real_of_int n"
  shows "double_round x = x"
proof (cases "x = 0")
  case True
  then show ?thesis by (simp add: double_round_def)
next
  case False
  have "double_round x = sgn x * (real_of_int n * 2 powr real_of_int (double_exponent x))"
    using False assms by (simp add: double_round_scaled round_half_even_of_int)
  also have "real_of_int n * 2 powr real_of_int (double_exponent x) = \<bar>x\<bar>"
    using assms [symmetric] by simp
  also have "sgn x * \<bar>x\<bar> = x"
    by (simp add: sgn_mult_abs)
  finally show ?thesis .
qed

lemma double_round_dyadic:
  assumes "\<bar>k\<bar> < 2 ^ 53" and "j \<le> 1074"
  shows "double_round (real_of_int k / 2 ^ j) = real_of_int k / 2 ^ j"
proof (cases "k = 0")
  case True
  then show ?thesis by (simp add: double_round_def)
next
  case False
  let ?x = "real_of_int k / 2 ^ j"
  let ?e = "double_exponent ?x"
  have pos: "0 < \<bar>?x\<bar>"
    using False by simp
  have j: "(2::real) ^ j = 2 powr real j"
    by (simp add: powr_realpow)
  have "real_of_int \<bar>k\<bar> < 2 ^ 53"
    using assms(1) by (metis of_int_less_numeral_power_cancel_iff)
  then have "\<bar>?x\<bar> < 2 ^ 53 / 2 ^ j"
    by (simp add: abs_divide divide_strict_right_mono)
  also have "\<dots> = 2 powr (53 - real j)"
    by (simp add: j powr_diff)
  finally have "log 2 \<bar>?x\<bar> < 53 - real j"
    using pos by (simp add: log_less_iff)
  then have "\<lfloor>log 2 \<bar>?x\<bar>\<rfloor> < 53 - int j"
    by (simp add: floor_less_iff)
  then have e: "?e \<le> - int j"
    using assms(2) by (simp add: double_exponent_def)
  define t where "t = nat (- int j - ?e)"
  have t: "real_of_int ?e = - real j - real t"
    using e by (simp add: t_def)
  have "\<bar>?x\<bar> / 2 powr real_of_int ?e = real_of_int (\<bar>k\<bar> * 2 ^ t)"
    unfolding t by (simp add: powr_diff powr_minus powr_realpow abs_divide field_simps)
  then show ?thesis
    by (rule double_round_exact)
qed

text \<open>The rounded quotient of a quotient between 0 and 1 is between 0 and 1.\<close>

lemma double_round_unit:
  assumes "0 \<le> x" and "x \<le> 1"
  shows "0 \<le> double_round x \<and> double_round x \<le> 1"
proof (cases "x = 0")
  case True
  then show ?thesis by (simp add: double_round_def)
next
  case False
  with assms have pos: "0 < x" by simp
  let ?e = "double_exponent x"
  have "log 2 x \<le> 0"
    using pos assms(2) by simp
  then have "\<lfloor>log 2 \<bar>x\<bar>\<rfloor> \<le> 0"
    using pos by (simp add: floor_le_iff)
  then have e: "?e \<le> 0"
    by (simp add: double_exponent_def)
  define n where "n = nat (- ?e)"
  have p: "2 powr real_of_int ?e = 1 / 2 ^ n"
    using e by (simp add: n_def powr_real_of_int field_simps)
  let ?m = "round_half_even (\<bar>x\<bar> / 2 powr real_of_int ?e)"
  have "\<bar>x\<bar> / 2 powr real_of_int ?e \<le> real_of_int (2 ^ n)"
    using pos assms(2) by (simp add: p)
  then have hi: "?m \<le> 2 ^ n"
    by (rule round_half_even_upper)
  have "real_of_int 0 \<le> \<bar>x\<bar> / 2 powr real_of_int ?e"
    by simp
  then have lo: "0 \<le> ?m"
    by (rule round_half_even_lower)
  have r: "double_round x = real_of_int ?m / 2 ^ n"
    using pos by (simp add: double_round_scaled p)
  have "real_of_int ?m \<le> 2 ^ n"
    using hi by (metis of_int_le_numeral_power_cancel_iff)
  then show ?thesis
    using lo by (simp add: r)
qed

text \<open>The rounding error: half a unit in the last place.\<close>

lemma double_round_error:
  "\<bar>double_round x - x\<bar> \<le> max (\<bar>x\<bar> / 2 ^ 53) (1 / 2 ^ 1075)"
proof (cases "x = 0")
  case True
  then show ?thesis by (simp add: double_round_def)
next
  case False
  let ?e = "double_exponent x"
  let ?y = "\<bar>x\<bar> / 2 powr real_of_int ?e"
  have x: "x = sgn x * (?y * 2 powr real_of_int ?e)"
    by (simp add: sgn_mult_abs)
  have "double_round x - x
      = sgn x * ((real_of_int (round_half_even ?y) - ?y) * 2 powr real_of_int ?e)"
    using False by (subst (2) x) (simp add: double_round_scaled algebra_simps)
  then have "\<bar>double_round x - x\<bar>
      = \<bar>real_of_int (round_half_even ?y) - ?y\<bar> * 2 powr real_of_int ?e"
    using False by (simp add: abs_mult abs_sgn_eq)
  also have "\<dots> \<le> 1 / 2 * 2 powr real_of_int ?e"
    by (intro mult_right_mono round_half_even_error) simp
  finally have err: "\<bar>double_round x - x\<bar> \<le> 2 powr real_of_int ?e / 2"
    by simp
  have "2 powr real_of_int ?e \<le> max (\<bar>x\<bar> / 2 ^ 52) (1 / 2 ^ 1074)"
  proof (cases "- 1074 \<le> \<lfloor>log 2 \<bar>x\<bar>\<rfloor> - 52")
    case True
    then have "real_of_int ?e = real_of_int \<lfloor>log 2 \<bar>x\<bar>\<rfloor> - 52"
      by (simp add: double_exponent_def)
    then have "2 powr real_of_int ?e = 2 powr real_of_int \<lfloor>log 2 \<bar>x\<bar>\<rfloor> / 2 ^ 52"
      by (simp add: powr_diff)
    also have "\<dots> \<le> \<bar>x\<bar> / 2 ^ 52"
      using False floor_log2_lower [of "\<bar>x\<bar>"] by (simp add: divide_right_mono)
    finally show ?thesis by simp
  next
    case False
    then have "real_of_int ?e = - 1074"
      by (simp add: double_exponent_def)
    then have "2 powr real_of_int ?e = 1 / 2 ^ 1074"
      by (simp add: powr_neg_numeral)
    then show ?thesis by simp
  qed
  then have "2 powr real_of_int ?e / 2 \<le> max (\<bar>x\<bar> / 2 ^ 52) (1 / 2 ^ 1074) / 2"
    by (rule divide_right_mono) simp
  also have "\<dots> = max (\<bar>x\<bar> / 2 ^ 53) (1 / 2 ^ 1075)"
    by (simp add: max_def field_simps)
  finally show ?thesis
    using err by linarith
qed

text \<open>A quotient beyond the range of the doubles stays beyond it when rounded.\<close>

lemma double_round_overflow:
  assumes "double_overflow \<le> \<bar>x\<bar>"
  shows "double_overflow \<le> \<bar>double_round x\<bar>"
proof -
  have pos: "0 < \<bar>x\<bar>"
    using assms double_overflow_pos by linarith
  then have nz: "x \<noteq> 0" by simp
  let ?l = "\<lfloor>log 2 \<bar>x\<bar>\<rfloor>"
  let ?e = "double_exponent x"
  have pw: "double_overflow = 2 powr 1024"
    by (simp add: double_overflow_def)
  have "2 powr 1024 \<le> \<bar>x\<bar>"
    using assms unfolding pw .
  then have "1024 \<le> log 2 \<bar>x\<bar>"
    using pos by (simp add: le_log_iff)
  then have l: "1024 \<le> ?l"
    by (simp add: le_floor_iff)
  then have e: "real_of_int ?e = real_of_int ?l - 52"
    by (simp add: double_exponent_def)
  have "real_of_int (2 ^ 52) = 2 powr real_of_int ?l / 2 powr real_of_int ?e"
    unfolding e by (simp add: powr_diff)
  also have "\<dots> \<le> \<bar>x\<bar> / 2 powr real_of_int ?e"
    using floor_log2_lower [OF pos] by (simp add: divide_right_mono)
  finally have "2 ^ 52 \<le> round_half_even (\<bar>x\<bar> / 2 powr real_of_int ?e)"
    by (rule round_half_even_lower)
  then have "(2::real) ^ 52 \<le> real_of_int (round_half_even (\<bar>x\<bar> / 2 powr real_of_int ?e))"
    by (metis of_int_numeral_le_iff of_int_numeral of_int_power of_int_le_iff)
  then have "2 ^ 52 * 2 powr real_of_int ?e \<le> \<bar>double_round x\<bar>"
    unfolding abs_double_round [OF nz] by (rule mult_right_mono) simp
  moreover have "2 ^ 52 * 2 powr real_of_int ?e = 2 powr real_of_int ?l"
    unfolding e by (simp add: powr_diff)
  moreover have "2 powr 1024 \<le> 2 powr real_of_int ?l"
    using l by (intro powr_mono) simp_all
  ultimately show ?thesis
    unfolding pw by linarith
qed

lemma true_div_by_zero: "true_div a 0 = Inl ZeroDivisionError"
  by (simp add: true_div_def)

lemma true_div_zero: "b \<noteq> 0 \<Longrightarrow> true_div 0 b = Inr 0"
  using double_overflow_pos by (simp add: true_div_def double_round_def not_le)

lemma true_div_pow2:
  assumes "\<bar>a\<bar> < 2 ^ 53" and "j \<le> 1074"
  shows "true_div a (2 ^ j) = Inr (real_of_int a / 2 ^ j)"
proof -
  have a: "\<bar>real_of_int a\<bar> < 2 ^ 53"
    using assms(1) by (metis of_int_abs of_int_less_numeral_power_cancel_iff)
  have "\<bar>real_of_int a\<bar> / 2 ^ j \<le> \<bar>real_of_int a\<bar> / 1"
    by (rule divide_left_mono) simp_all
  with a have "\<bar>real_of_int a / 2 ^ j\<bar> < 2 ^ 53"
    by (simp add: abs_divide)
  with double_overflow_gt have "\<not> double_overflow \<le> \<bar>real_of_int a / 2 ^ j\<bar>"
    by linarith
  moreover have "double_round (real_of_int a / 2 ^ j) = real_of_int a / 2 ^ j"
    using assms by (rule double_round_dyadic)
  ultimately show ?thesis
    by (simp add: true_div_def)
qed

lemma true_div_unit:
  assumes "0 \<le> a" and "a \<le> b" and "0 < b"
  shows "\<exists>p. true_div a b = Inr p \<and> 0 \<le> p \<and> p \<le> 1"
proof -
  have "0 \<le> real_of_int a / real_of_int b" and "real_of_int a / real_of_int b \<le> 1"
    using assms by simp_all
  then have u: "0 \<le> double_round (real_of_int a / real_of_int b)
      \<and> double_round (real_of_int a / real_of_int b) \<le> 1"
    by (rule double_round_unit)
  have "(1::real) < 2 ^ 53"
    by simp
  with u double_overflow_gt
  have "\<not> double_overflow \<le> \<bar>double_round (real_of_int a / real_of_int b)\<bar>"
    by linarith
  then show ?thesis
    using assms(3) u by (simp add: true_div_def)
qed

lemma true_div_overflow:
  assumes "b \<noteq> 0" and "double_overflow \<le> \<bar>real_of_int a / real_of_int b\<bar>"
  shows "true_div a b = Inl OverflowError"
  using assms(1) double_round_overflow [OF assms(2)] by (simp add: true_div_def)

text \<open>One twelfth is not a double: the division returns its neighbour.\<close>

lemma double_round_twelfth: "double_round (1 / 12) = 6004799503160661 / 2 ^ 56"
proof -
  have "\<lfloor>log 2 (1 / 12 :: real)\<rfloor> = - 4"
    by (rule floor_log2_eq) (simp_all add: powr_neg_numeral)
  then have e: "double_exponent (1 / 12) = - 56"
    by (simp add: double_exponent_def)
  have p: "2 powr (- 56 :: real) = 1 / 2 ^ 56"
    by (simp add: powr_neg_numeral)
  have "round_half_even (2 ^ 56 / 12) = 6004799503160661"
    by (simp add: round_half_even_def)
  then show ?thesis
    by (simp add: double_round_def e p)
qed

lemma true_div_1_12: "true_div 1 12 = Inr (6004799503160661 / 2 ^ 56)"
proof -
  have "(6004799503160661 / 2 ^ 56 :: real) < 2 ^ 53"
    by simp
  with double_overflow_gt have "\<not> double_overflow \<le> \<bar>6004799503160661 / 2 ^ 56 :: real\<bar>"
    by simp
  then show ?thesis
    by (simp add: true_div_def double_round_twelfth)
qed

section \<open>Properties of \<^verbatim>\<open>winning_probability\<close>\<close>

lemma add_count_eq: "add_count cnts key tot = tot + count_of cnts key"
  by (simp add: add_count_def count_of_def split: option.split)

lemma equal_outputs_loop_three:
  assumes "3 \<le> length res"
  shows "equal_outputs_loop res [0..<3] 0 =
     Inr (count_of (res ! 0) ''00'' + count_of (res ! 0) ''11''
        + count_of (res ! 1) ''00'' + count_of (res ! 1) ''11''
        + count_of (res ! 2) ''00'' + count_of (res ! 2) ''11'')"
  using assms by (auto simp add: upt_0_3 bind_res_def get_counts_def add_count_eq)

lemma winning_probability_batch:
  "winning_probability backend shots a0 a1 b0 b1 =
     bind_res (backend (chsh_batch a0 a1 b0 b1) shots) (\<lambda>res.
     bind_res (equal_outputs_loop res [0..<3] 0) (\<lambda>tot.
     bind_res (get_counts res 3) (\<lambda>cnts.
     true_div (add_count cnts ''10'' (add_count cnts ''01'' tot)) (4 * shots))))"
  by (simp add: winning_probability_def CHSH_circuit_eq bind_res_def execute_def
      chsh_batch_def)

lemma winning_probability_response:
  assumes "backend (chsh_batch a0 a1 b0 b1) shots = Inr res" and "length res = 4"
  shows "winning_probability backend shots a0 a1 b0 b1 = true_div (win_sum res) (4 * shots)"
  using assms
  by (simp add: winning_probability_batch equal_outputs_loop_three bind_res_def
      get_counts_def add_count_eq win_sum_def)

text \<open>
  Claim C1, as stated, fails: the value returned is a double, not the exact quotient.
  With three shots and a single count of the outcome 00 the win sum is 1 and the
  divisor 12; the call returns the double next to one twelfth,
  \<open>6004799503160661 / 2\<^sup>5\<^sup>6\<close>.
\<close>

theorem winning_probability_not_exact_quotient:
  "winning_probability
     (const_backend [map_of [(''00'', 1)], map_of [], map_of [], map_of []])
     3 0 (pi / 2) (pi / 4) (- pi / 4) = Inr (6004799503160661 / 2 ^ 56)
   \<and> (6004799503160661 / 2 ^ 56 :: real) \<noteq> 1 / 12"
proof -
  have "winning_probability
     (const_backend [map_of [(''00'', 1)], map_of [], map_of [], map_of []])
     3 0 (pi / 2) (pi / 4) (- pi / 4)
     = true_div (win_sum [map_of [(''00'', 1)], map_of [], map_of [], map_of []]) (4 * 3)"
    by (rule winning_probability_response) (simp_all add: const_backend_def)
  then show ?thesis
    by (simp add: win_sum_def count_of_def true_div_1_12)
qed

text \<open>
  Claim C1, amended. When the backend answers the batch with one counts dictionary per
  descriptor, the call returns Python's quotient of the win sum (the counts of 00 and
  11 of the first three descriptors and of 01 and 10 of the fourth, an absent key
  counting zero) by four times the number of shots: \<^verbatim>\<open>ZeroDivisionError\<close> for zero shots,
  \<^verbatim>\<open>OverflowError\<close> when the rounded quotient is out of the range of the doubles, and
  otherwise the double nearest to the exact quotient. A value returned differs from
  the exact quotient by at most the quotient's \<open>2\<^sup>-\<^sup>5\<^sup>3\<close>-th part, or \<open>2\<^sup>-\<^sup>1\<^sup>0\<^sup>7\<^sup>5\<close>; it is
  the exact quotient when the number of shots is a power of two up to \<open>2\<^sup>1\<^sup>0\<^sup>7\<^sup>2\<close>, as
  the default 8192 is, and the win sum is below \<open>2\<^sup>5\<^sup>3\<close> in magnitude.
\<close>

theorem winning_probability_rounded_quotient:
  assumes "backend (chsh_batch a0 a1 b0 b1) shots = Inr res" and "length res = 4"
  shows "winning_probability backend shots a0 a1 b0 b1 =
      (if shots = 0 then Inl ZeroDivisionError
       else if double_overflow
               \<le> \<bar>double_round (real_of_int (win_sum res) / real_of_int (4 * shots))\<bar>
       then Inl OverflowError
       else Inr (double_round (real_of_int (win_sum res) / real_of_int (4 * shots))))
    \<and> win_sum res =
        count_of (res ! 0) ''00'' + count_of (res ! 0) ''11''
      + count_of (res ! 1) ''00'' + count_of (res ! 1) ''11''
      + count_of (res ! 2) ''00'' + count_of (res ! 2) ''11''
      + count_of (res ! 3) ''01'' + count_of (res ! 3) ''10''
    \<and> (\<forall>p. winning_probability backend shots a0 a1 b0 b1 = Inr p \<longrightarrow>
          \<bar>p - real_of_int (win_sum res) / real_of_int (4 * shots)\<bar>
            \<le> max (\<bar>real_of_int (win_sum res) / real_of_int (4 * shots)\<bar> / 2 ^ 53)
                   (1 / 2 ^ 1075))
    \<and> (\<forall>j. shots = 2 ^ j \<and> j \<le> 1072 \<and> \<bar>win_sum res\<bar> < 2 ^ 53 \<longrightarrow>
          winning_probability backend shots a0 a1 b0 b1
            = Inr (real_of_int (win_sum res) / real_of_int (4 * shots)))"
proof -
  let ?q = "real_of_int (win_sum res) / real_of_int (4 * shots)"
  have wp: "winning_probability backend shots a0 a1 b0 b1 = true_div (win_sum res) (4 * shots)"
    using assms by (rule winning_probability_response)
  have c1: "winning_probability backend shots a0 a1 b0 b1 =
      (if shots = 0 then Inl ZeroDivisionError
       else if double_overflow \<le> \<bar>double_round ?q\<bar> then Inl OverflowError
       else Inr (double_round ?q))"
    unfolding wp by (simp add: true_div_def Let_def)
  have c3: "\<bar>p - ?q\<bar> \<le> max (\<bar>?q\<bar> / 2 ^ 53) (1 / 2 ^ 1075)"
    if "winning_probability backend shots a0 a1 b0 b1 = Inr p" for p
  proof -
    have "p = double_round ?q"
      using that unfolding c1 by (simp split: if_splits)
    then show ?thesis
      using double_round_error [of ?q] by simp
  qed
  have c4: "winning_probability backend shots a0 a1 b0 b1 = Inr ?q"
    if "shots = 2 ^ j \<and> j \<le> 1072 \<and> \<bar>win_sum res\<bar> < 2 ^ 53" for j
  proof -
    have "4 * shots = 2 ^ (j + 2)"
      using that by simp
    moreover have "true_div (win_sum res) (2 ^ (j + 2))
        = Inr (real_of_int (win_sum res) / 2 ^ (j + 2))"
      using that by (intro true_div_pow2) simp_all
    ultimately show ?thesis
      unfolding wp by simp
  qed
  show ?thesis
    using c1 c3 c4 by (simp add: win_sum_def)
qed

theorem winning_probability_rounded_quotient_witness:
  "winning_probability
     (const_backend [map_of [(''00'', 3), (''11'', 4), (''01'', 1)], map_of [(''00'', 8)],
                     map_of [(''11'', 5), (''10'', 3)], map_of [(''00'', 2), (''01'', 6)]])
     8 0 (pi / 2) (pi / 4) (- pi / 4) = Inr (26 / 32)"
proof -
  let ?res = "[map_of [(''00'', 3), (''11'', 4), (''01'', 1)], map_of [(''00'', 8)],
               map_of [(''11'', 5), (''10'', 3)], map_of [(''00'', 2), (''01'', 6)]]
              :: job_result"
  have b: "const_backend ?res (chsh_batch 0 (pi / 2) (pi / 4) (- pi / 4)) 8 = Inr ?res"
    by (simp add: const_backend_def)
  have w: "win_sum ?res = 26"
    by (simp add: win_sum_def count_of_def)
  have "length ?res = 4"
    by simp
  with b have "\<forall>j. (8::int) = 2 ^ j \<and> j \<le> 1072 \<and> \<bar>win_sum ?res\<bar> < 2 ^ 53 \<longrightarrow>
      winning_probability (const_backend ?res) 8 0 (pi / 2) (pi / 4) (- pi / 4)
        = Inr (real_of_int (win_sum ?res) / real_of_int (4 * 8))"
    by (rule winning_probability_rounded_quotient
          [THEN conjunct2, THEN conjunct2, THEN conjunct2])
  then have "(8::int) = 2 ^ 3 \<and> (3::nat) \<le> 1072 \<and> \<bar>win_sum ?res\<bar> < 2 ^ 53 \<longrightarrow>
      winning_probability (const_backend ?res) 8 0 (pi / 2) (pi / 4) (- pi / 4)
        = Inr (real_of_int (win_sum ?res) / real_of_int (4 * 8))"
    by (rule spec)
  then show ?thesis
    unfolding w by simp
qed

lemma all_less_3: "(\<forall>i<3. P i) \<longleftrightarrow> P 0 \<and> P 1 \<and> P (2::nat)"
proof -
  have "i < 3 \<longleftrightarrow> i = 0 \<or> i = 1 \<or> i = 2" for i :: nat
    by arith
  then show ?thesis by auto
qed

lemma all_less_4: "(\<forall>i<4. P i) \<longleftrightarrow> P 0 \<and> P 1 \<and> P 2 \<and> P (3::nat)"
proof -
  have "i < 4 \<longleftrightarrow> i = 0 \<or> i = 1 \<or> i = 2 \<or> i = 3" for i :: nat
    by arith
  then show ?thesis by auto
qed

lemma count_of_absent: "cnts key = None \<Longrightarrow> count_of cnts key = 0"
  by (simp add: count_of_def)

lemma count_of_zero_update:
  "cnts key = None \<Longrightarrow> count_of (cnts(key \<mapsto> 0)) k = count_of cnts k"
  by (simp add: count_of_def)

lemma win_sum_zero_update:
  assumes "length res = 4" and "i < 4" and "(res ! i) key = None"
  shows "win_sum (res[i := (res ! i)(key \<mapsto> 0)]) = win_sum res"
proof -
  have "count_of (res[i := (res ! i)(key \<mapsto> 0)] ! j) k = count_of (res ! j) k"
    if "j < 4" for j k
    using assms that by (cases "i = j") (simp_all add: count_of_zero_update)
  then show ?thesis by (simp add: win_sum_def)
qed

lemma winning_probability_zero_shots: "isl (winning_probability backend 0 a0 a1 b0 b1)"
  by (simp add: winning_probability_batch bind_res_def true_div_def split: sum.split)

text \<open>
  Claim C3, as stated, fails. With a shot count of zero the division raises
  \<^verbatim>\<open>ZeroDivisionError\<close>, and since the counts are not checked against the shot count, a
  response that reports five wins for one shot gives the value 5/4.
\<close>

theorem winning_probability_outside_unit_interval:
  "winning_probability (const_backend [map_of [], map_of [], map_of [], map_of []])
     0 0 (pi / 2) (pi / 4) (- pi / 4) = Inl ZeroDivisionError
   \<and> winning_probability
       (const_backend [map_of [(''00'', 5)], map_of [], map_of [], map_of []])
     1 0 (pi / 2) (pi / 4) (- pi / 4) = Inr (5 / 4)"
proof -
  have "true_div 5 (2 ^ 2) = Inr (real_of_int 5 / 2 ^ 2)"
    by (rule true_div_pow2) simp_all
  then have d: "true_div 5 4 = Inr (5 / 4)"
    by simp
  show ?thesis
    by (simp add: winning_probability_response [where res = "[a, b, c, d]" for a b c d]
        const_backend_def true_div_by_zero d win_sum_def count_of_def)
qed

text \<open>
  Claim C3, amended. For a positive shot count and a response in which the two winning
  counts of every descriptor are non-negative and together at most the shot count, the
  call returns a value, and the value lies between 0 and 1.
\<close>

theorem winning_probability_unit_interval:
  assumes "backend (chsh_batch a0 a1 b0 b1) shots = Inr res" and "length res = 4"
    and "0 < shots"
    and "\<forall>i<3. wins_within shots (res ! i) ''00'' ''11''"
    and "wins_within shots (res ! 3) ''01'' ''10''"
  shows "\<exists>p. winning_probability backend shots a0 a1 b0 b1 = Inr p \<and> 0 \<le> p \<and> p \<le> 1"
proof -
  have w: "wins_within shots (res ! 0) ''00'' ''11''"
      "wins_within shots (res ! 1) ''00'' ''11''"
      "wins_within shots (res ! 2) ''00'' ''11''"
    using assms(4) by (simp_all add: all_less_3)
  have lo: "0 \<le> win_sum res"
    using w assms(5) unfolding win_sum_def wins_within_def by linarith
  have hi: "win_sum res \<le> 4 * shots"
    using w assms(5) unfolding win_sum_def wins_within_def by linarith
  have "winning_probability backend shots a0 a1 b0 b1 = true_div (win_sum res) (4 * shots)"
    using assms(1,2) by (rule winning_probability_response)
  moreover have "\<exists>p. true_div (win_sum res) (4 * shots) = Inr p \<and> 0 \<le> p \<and> p \<le> 1"
    using lo hi assms(3) by (intro true_div_unit) simp_all
  ultimately show ?thesis by simp
qed

theorem winning_probability_unit_interval_witness:
  "\<exists>p. winning_probability
         (const_backend [map_of [(''00'', 3), (''11'', 4), (''01'', 1)], map_of [(''00'', 8)],
                         map_of [(''11'', 5), (''10'', 3)], map_of [(''00'', 2), (''01'', 6)]])
         8 0 (pi / 2) (pi / 4) (- pi / 4) = Inr p \<and> 0 \<le> p \<and> p \<le> 1"
  by (rule winning_probability_unit_interval
        [where res = "[map_of [(''00'', 3), (''11'', 4), (''01'', 1)], map_of [(''00'', 8)],
                       map_of [(''11'', 5), (''10'', 3)], map_of [(''00'', 2), (''01'', 6)]]"])
     (simp_all add: const_backend_def all_less_3 wins_within_def count_of_def)

text \<open>
  Claim C5, as stated, fails: with counts for 00 and 11 only on every descriptor the
  call need not succeed. A count of \<open>10\<^sup>3\<^sup>0\<^sup>9\<close> with one shot makes the division raise
  \<^verbatim>\<open>OverflowError\<close>, and zero shots make it raise \<^verbatim>\<open>ZeroDivisionError\<close>.
\<close>

theorem only_equal_keys_call_fails:
  "winning_probability
     (const_backend [map_of [(''00'', 10 ^ 309), (''11'', 0)], map_of [(''00'', 0), (''11'', 0)],
                     map_of [(''00'', 0), (''11'', 0)], map_of [(''00'', 0), (''11'', 0)]])
     1 0 (pi / 2) (pi / 4) (- pi / 4) = Inl OverflowError
   \<and> winning_probability
     (const_backend [map_of [(''00'', 0), (''11'', 0)], map_of [(''00'', 0), (''11'', 0)],
                     map_of [(''00'', 0), (''11'', 0)], map_of [(''00'', 0), (''11'', 0)]])
     0 0 (pi / 2) (pi / 4) (- pi / 4) = Inl ZeroDivisionError"
proof -
  let ?big = "[map_of [(''00'', 10 ^ 309), (''11'', 0)], map_of [(''00'', 0), (''11'', 0)],
               map_of [(''00'', 0), (''11'', 0)], map_of [(''00'', 0), (''11'', 0)]]
              :: job_result"
  let ?none = "[map_of [(''00'', 0), (''11'', 0)], map_of [(''00'', 0), (''11'', 0)],
                map_of [(''00'', 0), (''11'', 0)], map_of [(''00'', 0), (''11'', 0)]]
               :: job_result"
  have w: "win_sum ?big = 10 ^ 309"
    by (simp add: win_sum_def count_of_def)
  have "(2::real) ^ 1024 \<le> 10 ^ 309 / 4"
    by simp
  then have "double_overflow \<le> \<bar>real_of_int (10 ^ 309) / real_of_int 4\<bar>"
    by (simp add: double_overflow_def)
  then have o: "true_div (10 ^ 309) 4 = Inl OverflowError"
    by (intro true_div_overflow) simp_all
  have "winning_probability (const_backend ?big) 1 0 (pi / 2) (pi / 4) (- pi / 4)
      = true_div (win_sum ?big) (4 * 1)"
    by (rule winning_probability_response) (simp_all add: const_backend_def)
  then have big: "winning_probability (const_backend ?big) 1 0 (pi / 2) (pi / 4) (- pi / 4)
      = Inl OverflowError"
    unfolding w using o by simp
  have "winning_probability (const_backend ?none) 0 0 (pi / 2) (pi / 4) (- pi / 4)
      = true_div (win_sum ?none) (4 * 0)"
    by (rule winning_probability_response) (simp_all add: const_backend_def)
  then have "winning_probability (const_backend ?none) 0 0 (pi / 2) (pi / 4) (- pi / 4)
      = Inl ZeroDivisionError"
    by (simp add: true_div_by_zero)
  with big show ?thesis by blast
qed

text \<open>
  Claim C5, amended. With a response of four counts dictionaries, a key absent from a
  descriptor's counts contributes what a count of zero would: the call returns the
  same value, or raises the same error, as for the response with that key present with
  count 0, so an absent key raises no error of its own. When every descriptor reports
  counts for 00 and 11 only, the fourth descriptor contributes nothing: the outcome is
  Python's quotient of the sum of the counts of the first three descriptors by four
  times the shot count, and the call succeeds when the shot count is positive and the
  counts of each of the first three descriptors are non-negative and together at most
  the shot count.
\<close>

theorem absent_key_contributes_zero:
  assumes "backend (chsh_batch a0 a1 b0 b1) shots = Inr res" and "length res = 4"
  shows "(\<forall>i<4. \<forall>key. (res ! i) key = None \<longrightarrow>
          winning_probability (const_backend (res[i := (res ! i)(key \<mapsto> 0)]))
            shots a0 a1 b0 b1
          = winning_probability backend shots a0 a1 b0 b1)
    \<and> ((\<forall>i<4. dom (res ! i) \<subseteq> {''00'', ''11''}) \<longrightarrow>
          winning_probability backend shots a0 a1 b0 b1 =
            true_div (count_of (res ! 0) ''00'' + count_of (res ! 0) ''11''
                    + count_of (res ! 1) ''00'' + count_of (res ! 1) ''11''
                    + count_of (res ! 2) ''00'' + count_of (res ! 2) ''11'')
                     (4 * shots))
    \<and> ((\<forall>i<4. dom (res ! i) \<subseteq> {''00'', ''11''}) \<and> 0 < shots
          \<and> (\<forall>i<3. wins_within shots (res ! i) ''00'' ''11'') \<longrightarrow>
          (\<exists>p. winning_probability backend shots a0 a1 b0 b1 = Inr p))"
proof -
  let ?s = "count_of (res ! 0) ''00'' + count_of (res ! 0) ''11''
          + count_of (res ! 1) ''00'' + count_of (res ! 1) ''11''
          + count_of (res ! 2) ''00'' + count_of (res ! 2) ''11''"
  have wp: "winning_probability backend shots a0 a1 b0 b1 = true_div (win_sum res) (4 * shots)"
    using assms by (rule winning_probability_response)
  have c1: "winning_probability (const_backend (res[i := (res ! i)(key \<mapsto> 0)]))
            shots a0 a1 b0 b1 = winning_probability backend shots a0 a1 b0 b1"
    if "i < 4" and "(res ! i) key = None" for i key
  proof -
    have "winning_probability (const_backend (res[i := (res ! i)(key \<mapsto> 0)]))
            shots a0 a1 b0 b1
        = true_div (win_sum (res[i := (res ! i)(key \<mapsto> 0)])) (4 * shots)"
      by (rule winning_probability_response) (simp_all add: const_backend_def assms(2))
    also have "\<dots> = true_div (win_sum res) (4 * shots)"
      using assms(2) that by (simp add: win_sum_zero_update)
    finally show ?thesis
      unfolding wp .
  qed
  have s: "win_sum res = ?s" if d: "\<forall>i<4. dom (res ! i) \<subseteq> {''00'', ''11''}"
  proof -
    have "dom (res ! 3) \<subseteq> {''00'', ''11''}"
      using d by simp
    then have "(res ! 3) ''01'' = None" and "(res ! 3) ''10'' = None"
      by (auto simp add: dom_def)
    then have "count_of (res ! 3) ''01'' = 0" and "count_of (res ! 3) ''10'' = 0"
      by (simp_all add: count_of_absent)
    then show ?thesis
      by (simp add: win_sum_def)
  qed
  have c2: "winning_probability backend shots a0 a1 b0 b1 = true_div ?s (4 * shots)"
    if "\<forall>i<4. dom (res ! i) \<subseteq> {''00'', ''11''}"
    unfolding wp using s [OF that] by simp
  have c3: "\<exists>p. winning_probability backend shots a0 a1 b0 b1 = Inr p"
    if d: "\<forall>i<4. dom (res ! i) \<subseteq> {''00'', ''11''}" and "0 < shots"
      and w: "\<forall>i<3. wins_within shots (res ! i) ''00'' ''11''"
  proof -
    have w3: "wins_within shots (res ! 0) ''00'' ''11''"
        "wins_within shots (res ! 1) ''00'' ''11''"
        "wins_within shots (res ! 2) ''00'' ''11''"
      using w by (simp_all add: all_less_3)
    have "0 \<le> ?s" and "?s \<le> 4 * shots"
      using w3 \<open>0 < shots\<close> unfolding wins_within_def by linarith+
    then have "\<exists>p. true_div ?s (4 * shots) = Inr p \<and> 0 \<le> p \<and> p \<le> 1"
      using \<open>0 < shots\<close> by (intro true_div_unit) simp_all
    then show ?thesis
      unfolding c2 [OF d] by blast
  qed
  show ?thesis
    using c1 c2 c3 by blast
qed

theorem absent_key_contributes_zero_witness:
  "winning_probability
     (const_backend [map_of [(''00'', 3), (''11'', 4)], map_of [(''00'', 8)],
                     map_of [(''11'', 5)], map_of [(''00'', 2), (''11'', 6)]])
     8 0 (pi / 2) (pi / 4) (- pi / 4) = Inr (20 / 32)
   \<and> winning_probability
     (const_backend [map_of [(''00'', 3), (''11'', 4)], map_of [(''00'', 8)],
                     map_of [(''11'', 5)], (map_of [(''00'', 2), (''11'', 6)])(''01'' \<mapsto> 0)])
     8 0 (pi / 2) (pi / 4) (- pi / 4) = Inr (20 / 32)"
proof -
  let ?res = "[map_of [(''00'', 3), (''11'', 4)], map_of [(''00'', 8)],
               map_of [(''11'', 5)], map_of [(''00'', 2), (''11'', 6)]] :: job_result"
  have b: "const_backend ?res (chsh_batch 0 (pi / 2) (pi / 4) (- pi / 4)) 8 = Inr ?res"
    by (simp add: const_backend_def)
  have l: "length ?res = 4"
    by simp
  have d: "\<forall>i<4. dom (?res ! i) \<subseteq> {''00'', ''11''}"
    by (simp add: all_less_4)
  have a: "(?res ! 3) ''01'' = None"
    by simp
  have "true_div 20 (2 ^ 5) = Inr (real_of_int 20 / 2 ^ 5)"
    by (rule true_div_pow2) simp_all
  then have q: "true_div 20 32 = Inr (20 / 32)"
    by simp
  note t = absent_key_contributes_zero
      [of "const_backend ?res" 0 "pi / 2" "pi / 4" "- pi / 4" 8 "?res", OF b l]
  from t [THEN conjunct2, THEN conjunct1] d
  have "winning_probability (const_backend ?res) 8 0 (pi / 2) (pi / 4) (- pi / 4) =
      true_div (count_of (?res ! 0) ''00'' + count_of (?res ! 0) ''11''
              + count_of (?res ! 1) ''00'' + count_of (?res ! 1) ''11''
              + count_of (?res ! 2) ''00'' + count_of (?res ! 2) ''11'') (4 * 8)"
    by (rule mp)
  then have v: "winning_probability (const_backend ?res) 8 0 (pi / 2) (pi / 4) (- pi / 4)
      = Inr (20 / 32)"
    using q by (simp add: count_of_def)
  from t [THEN conjunct1]
  have "(?res ! 3) ''01'' = None \<longrightarrow>
      winning_probability (const_backend (?res[3 := (?res ! 3)(''01'' \<mapsto> 0)]))
        8 0 (pi / 2) (pi / 4) (- pi / 4)
      = winning_probability (const_backend ?res) 8 0 (pi / 2) (pi / 4) (- pi / 4)"
    by (simp only: all_less_4) blast
  with a have "winning_probability (const_backend (?res[3 := (?res ! 3)(''01'' \<mapsto> 0)]))
        8 0 (pi / 2) (pi / 4) (- pi / 4) = Inr (20 / 32)"
    using v by simp
  then show ?thesis
    using v by (simp add: numeral_3_eq_3)
qed

text \<open>
  Claim C6. When every count of all four descriptors is zero and the shot count is
  positive, the value returned is exactly 0, and no error is raised.
\<close>

theorem zero_counts_give_zero:
  assumes "backend (chsh_batch a0 a1 b0 b1) shots = Inr res" and "length res = 4"
    and "0 < shots"
    and "\<forall>i<4. \<forall>key v. (res ! i) key = Some v \<longrightarrow> v = 0"
  shows "winning_probability backend shots a0 a1 b0 b1 = Inr 0"
proof -
  have "count_of (res ! i) key = 0" if "i < 4" for i key
    using assms(4) that by (auto simp add: count_of_def split: option.split)
  then have "win_sum res = 0"
    by (simp add: win_sum_def)
  then show ?thesis
    using assms(1-3) by (simp add: winning_probability_response true_div_zero)
qed

theorem zero_counts_give_zero_witness:
  "winning_probability
     (const_backend
        [map_of [(''00'', 0), (''01'', 0), (''10'', 0), (''11'', 0)],
         map_of [(''00'', 0), (''01'', 0), (''10'', 0), (''11'', 0)],
         map_of [(''00'', 0), (''01'', 0), (''10'', 0), (''11'', 0)],
         map_of [(''00'', 0), (''01'', 0), (''10'', 0), (''11'', 0)]])
     8192 0 (pi / 2) (pi / 4) (- pi / 4) = Inr 0"
  by (rule zero_counts_give_zero
        [where res = "[map_of [(''00'', 0), (''01'', 0), (''10'', 0), (''11'', 0)],
         map_of [(''00'', 0), (''01'', 0), (''10'', 0), (''11'', 0)],
         map_of [(''00'', 0), (''01'', 0), (''10'', 0), (''11'', 0)],
         map_of [(''00'', 0), (''01'', 0), (''10'', 0), (''11'', 0)]]"])
     (simp_all add: const_backend_def all_less_4 split: if_splits)

text \<open>
  Claim C10. The result depends on a response only through the counts of 00 and 11 of
  the first three descriptors and of 01 and 10 of the fourth: two responses that agree
  on these eight entries give the same result, whatever else they hold.
\<close>

theorem winning_probability_depends_on_winning_counts:
  assumes "backend (chsh_batch a0 a1 b0 b1) shots = Inr res" and "length res = 4"
    and "backend' (chsh_batch a0 a1 b0 b1) shots = Inr res'" and "length res' = 4"
    and "\<forall>i<3. (res ! i) ''00'' = (res' ! i) ''00'' \<and> (res ! i) ''11'' = (res' ! i) ''11''"
    and "(res ! 3) ''01'' = (res' ! 3) ''01''" and "(res ! 3) ''10'' = (res' ! 3) ''10''"
  shows "winning_probability backend shots a0 a1 b0 b1 =
         winning_probability backend' shots a0 a1 b0 b1"
proof -
  have "win_sum res = win_sum res'"
    using assms(5-7) by (simp add: win_sum_def count_of_def all_less_3)
  then show ?thesis
    using assms(1-4) by (simp add: winning_probability_response)
qed

theorem winning_probability_depends_on_winning_counts_witness:
  "winning_probability
     (const_backend [map_of [(''00'', 3), (''01'', 9)], map_of [(''11'', 4), (''xy'', 7)],
                     map_of [(''10'', 2)], map_of [(''01'', 5), (''00'', 1)]])
     8 0 (pi / 2) (pi / 4) (- pi / 4)
   = winning_probability
     (const_backend [map_of [(''00'', 3)], map_of [(''11'', 4), (''010'', 1)],
                     map_of [], map_of [(''01'', 5), (''11'', 8)]])
     8 0 (pi / 2) (pi / 4) (- pi / 4)"
  by (rule winning_probability_depends_on_winning_counts
        [where res = "[map_of [(''00'', 3), (''01'', 9)], map_of [(''11'', 4), (''xy'', 7)],
                     map_of [(''10'', 2)], map_of [(''01'', 5), (''00'', 1)]]"
           and res' = "[map_of [(''00'', 3)], map_of [(''11'', 4), (''010'', 1)],
                     map_of [], map_of [(''01'', 5), (''11'', 8)]]"])
     (simp_all add: const_backend_def all_less_3)

section \<open>Batched and separate requests\<close>

lemma winning_probability_separate_single:
  "winning_probability_separate backend shots a0 a1 b0 b1 =
     bind_res (single_request backend shots (chsh_descriptor a0 b0)) (\<lambda>n00.
     bind_res (single_request backend shots (chsh_descriptor a0 b1)) (\<lambda>n01.
     bind_res (single_request backend shots (chsh_descriptor a1 b0)) (\<lambda>n10.
     bind_res (single_request backend shots (chsh_descriptor a1 b1)) (\<lambda>n11.
     true_div
       (count_of n00 ''00'' + count_of n00 ''11''
      + count_of n01 ''00'' + count_of n01 ''11''
      + count_of n10 ''00'' + count_of n10 ''11''
      + count_of n11 ''01'' + count_of n11 ''10'')
       (4 * shots)))))"
  by (simp add: winning_probability_separate_def CHSH_circuit_eq bind_res_def add_count_eq
      add.assoc)

lemma upt_0_4: "[0..<4] = [0, Suc 0, 2, 3]"
proof -
  have "[0..<4] = [0..<Suc 3]"
    by (simp only: numeral_eq_Suc pred_numeral_simps BitM.simps)
  also have "\<dots> = [0..<3] @ [3]"
    by (rule upt_Suc_append) simp
  also have "\<dots> = [0, Suc 0, 2, 3]"
    by (simp add: upt_0_3)
  finally show ?thesis .
qed

text \<open>
  Claim C7, as stated, fails: a deterministic backend need not answer a batch as it
  answers its parts. The seeded stub draws the experiment at position \<open>i\<close> from the seed
  plus \<open>i\<close>; with the same seed 7 and the same 8192 shots the batched estimate is
  8286/32768 and the estimate from four separate requests is 8290/32768.
\<close>

theorem seeded_backend_batch_differs:
  "winning_probability (seeded_backend 7) 8192 0 (pi / 2) (pi / 4) (- pi / 4)
     = Inr (8286 / 32768)
   \<and> winning_probability_separate (seeded_backend 7) 8192 0 (pi / 2) (pi / 4) (- pi / 4)
     = Inr (8290 / 32768)"
proof -
  have "true_div 8286 (2 ^ 15) = Inr (real_of_int 8286 / 2 ^ 15)"
    by (rule true_div_pow2) simp_all
  then have batched: "true_div 8286 32768 = Inr (8286 / 32768)"
    by simp
  have "true_div 8290 (2 ^ 15) = Inr (real_of_int 8290 / 2 ^ 15)"
    by (rule true_div_pow2) simp_all
  then have separate: "true_div 8290 32768 = Inr (8290 / 32768)"
    by simp
  have "seeded_backend 7 (chsh_batch 0 (pi / 2) (pi / 4) (- pi / 4)) 8192 =
     Inr [seeded_counts 7 8192, seeded_counts 8 8192, seeded_counts 9 8192,
          seeded_counts 10 8192]"
    by (simp add: seeded_backend_def chsh_batch_def upt_0_4)
  then have "winning_probability (seeded_backend 7) 8192 0 (pi / 2) (pi / 4) (- pi / 4)
     = true_div (win_sum [seeded_counts 7 8192, seeded_counts 8 8192, seeded_counts 9 8192,
          seeded_counts 10 8192]) (4 * 8192)"
    by (rule winning_probability_response) simp
  then have "winning_probability (seeded_backend 7) 8192 0 (pi / 2) (pi / 4) (- pi / 4)
     = Inr (8286 / 32768)"
    using batched by (simp add: win_sum_def seeded_counts_def count_of_def)
  moreover have "single_request (seeded_backend 7) 8192 qc = Inr (seeded_counts 7 8192)"
    for qc
    by (simp add: single_request_def execute_def seeded_backend_def bind_res_def
        get_counts_def)
  then have "winning_probability_separate (seeded_backend 7) 8192 0 (pi / 2) (pi / 4)
      (- pi / 4) = Inr (8290 / 32768)"
    using separate
    by (simp add: winning_probability_separate_single bind_res_def seeded_counts_def
        count_of_def)
  ultimately show ?thesis by blast
qed

text \<open>
  Claim C7, amended. When the backend answers the batch of the four descriptors
  position by position as it answers the four single requests, the batched estimate and
  the estimate from four separate requests are the same, errors included.
\<close>

theorem batching_preserves_result:
  assumes "batch_independent backend shots (chsh_batch a0 a1 b0 b1)"
  shows "winning_probability backend shots a0 a1 b0 b1 =
         winning_probability_separate backend shots a0 a1 b0 b1"
proof -
  have b: "backend (chsh_batch a0 a1 b0 b1) shots =
      run_all (single_request backend shots) (chsh_batch a0 a1 b0 b1)"
    using assms by (simp add: batch_independent_def)
  show ?thesis
    unfolding winning_probability_batch winning_probability_separate_single b
    by (simp add: chsh_batch_def bind_res_def upt_0_3 get_counts_def add_count_eq
        split: sum.splits)
qed

theorem batching_preserves_result_witness:
  "batch_independent echo_backend 8 (chsh_batch 0 1 2 3)
   \<and> winning_probability echo_backend 8 0 1 2 3 = Inr (3 / 4)
   \<and> winning_probability_separate echo_backend 8 0 1 2 3 = Inr (3 / 4)"
proof -
  have i: "batch_independent echo_backend 8 (chsh_batch 0 1 2 3)"
    by (simp add: batch_independent_def echo_backend_def chsh_batch_def single_request_def
        execute_def bind_res_def get_counts_def)
  have "true_div 24 (2 ^ 5) = Inr (real_of_int 24 / 2 ^ 5)"
    by (rule true_div_pow2) simp_all
  then have q: "true_div 24 32 = Inr (3 / 4)"
    by simp
  have "winning_probability_separate echo_backend 8 0 1 2 3 = Inr (3 / 4)"
    using q
    by (simp add: winning_probability_separate_single single_request_def execute_def
        echo_backend_def bind_res_def get_counts_def count_of_def)
  with i batching_preserves_result [OF i] show ?thesis by simp
qed

section \<open>The ideal distribution\<close>

lemma true_div_27968_32768: "true_div 27968 32768 = Inr (6992 / 8192)"
proof -
  have "true_div 27968 (2 ^ 15) = Inr (real_of_int 27968 / 2 ^ 15)"
    by (rule true_div_pow2) simp_all
  then show ?thesis
    by simp
qed

lemma cos_pi_8_squared: "(cos (pi / 8))\<^sup>2 = (2 + sqrt 2) / 4"
proof -
  have "cos (2 * (pi / 8)) = 2 * (cos (pi / 8))\<^sup>2 - 1"
    by (rule cos_double_cos)
  moreover have "2 * (pi / 8) = pi / 4" by simp
  ultimately have "sqrt 2 / 2 = 2 * (cos (pi / 8))\<^sup>2 - 1"
    using cos_45 by simp
  then show ?thesis by (simp add: field_simps)
qed

lemma sin_pi_8_squared: "(sin (pi / 8))\<^sup>2 = (2 - sqrt 2) / 4"
  by (simp add: sin_squared_eq cos_pi_8_squared field_simps)

lemma sqrt_2_lower: "1.4142 < sqrt 2"
  by (rule real_less_rsqrt) (simp add: power2_eq_square)

lemma sqrt_2_upper: "sqrt 2 < 1.4143"
  by (rule real_less_lsqrt) (simp_all add: power2_eq_square)

lemma round_cos_8192: "round (8192 * (cos (pi / 8))\<^sup>2) = 6992"
proof -
  let ?x = "8192 * (cos (pi / 8))\<^sup>2"
  have x: "?x = 4096 + 2048 * sqrt 2"
    by (simp add: cos_pi_8_squared)
  have "?x - 1 / 2 < of_int 6992"
    unfolding x using sqrt_2_upper by simp
  moreover have "of_int 6992 \<le> ?x + 1 / 2"
    unfolding x using sqrt_2_lower by simp
  ultimately show ?thesis by (rule round_unique)
qed

lemma round_half_wins_8192: "round (4096 * (cos (pi / 8))\<^sup>2) = 3496"
proof -
  let ?x = "4096 * (cos (pi / 8))\<^sup>2"
  have x: "?x = 2048 + 1024 * sqrt 2"
    by (simp add: cos_pi_8_squared)
  have "?x - 1 / 2 < of_int 3496"
    unfolding x using sqrt_2_upper by simp
  moreover have "of_int 3496 \<le> ?x + 1 / 2"
    unfolding x using sqrt_2_lower by simp
  ultimately show ?thesis by (rule round_unique)
qed

lemma round_half_losses_8192: "round (4096 * (sin (pi / 8))\<^sup>2) = 600"
proof -
  let ?x = "4096 * (sin (pi / 8))\<^sup>2"
  have x: "?x = 2048 - 1024 * sqrt 2"
    by (simp add: sin_pi_8_squared)
  have "?x - 1 / 2 < of_int 600"
    unfolding x using sqrt_2_lower by simp
  moreover have "of_int 600 \<le> ?x + 1 / 2"
    unfolding x using sqrt_2_upper by simp
  ultimately show ?thesis by (rule round_unique)
qed

lemma theoretical_wins_8192: "theoretical_wins 8192 = 6992"
  by (simp add: theoretical_wins_def round_cos_8192)

lemma theoretical_counts_8192:
  "theoretical_counts 8192 True =
     map_of [(''00'', 3496), (''11'', 3496), (''01'', 600), (''10'', 600)]"
  "theoretical_counts 8192 False =
     map_of [(''00'', 600), (''11'', 600), (''01'', 3496), (''10'', 3496)]"
  by (simp_all add: theoretical_counts_def Let_def round_half_wins_8192 round_half_losses_8192)

text \<open>
  Claim C9, as stated, fails. Fed the ideal distribution for 8192 shots, rounded to
  integers (3496 for each winning outcome, 600 for each losing one), the call returns
  6992/8192 = 0.853515625, which is neither within \<open>10\<^sup>-\<^sup>9\<close> of 0.8536 nor within
  \<open>10\<^sup>-\<^sup>9\<close> of \<open>cos\<^sup>2 (\<pi>/8)\<close>.
\<close>

theorem theoretical_stub_misses_tolerance:
  "winning_probability theoretical_backend 8192 0 (pi / 2) (pi / 4) (- pi / 4)
     = Inr (6992 / 8192)
   \<and> \<not> \<bar>6992 / 8192 - 0.8536\<bar> \<le> (1 / 10 ^ 9 :: real)
   \<and> \<not> \<bar>6992 / 8192 - (cos (pi / 8))\<^sup>2\<bar> \<le> 1 / 10 ^ 9"
proof -
  have far: "\<not> \<bar>6992 / 8192 - (cos (pi / 8))\<^sup>2\<bar> \<le> 1 / 10 ^ 9"
    unfolding cos_pi_8_squared using sqrt_2_lower by (simp add: abs_le_iff)
  have "theoretical_backend (chsh_batch 0 (pi / 2) (pi / 4) (- pi / 4)) 8192 =
      Inr [theoretical_counts 8192 True, theoretical_counts 8192 True,
           theoretical_counts 8192 True, theoretical_counts 8192 False]"
    by (simp add: theoretical_backend_def)
  then have "winning_probability theoretical_backend 8192 0 (pi / 2) (pi / 4) (- pi / 4)
      = true_div (win_sum [theoretical_counts 8192 True, theoretical_counts 8192 True,
           theoretical_counts 8192 True, theoretical_counts 8192 False]) (4 * 8192)"
    by (rule winning_probability_response) simp
  then have "winning_probability theoretical_backend 8192 0 (pi / 2) (pi / 4) (- pi / 4)
      = Inr (6992 / 8192)"
    by (simp add: theoretical_counts_8192 win_sum_def count_of_def true_div_27968_32768)
  moreover have "\<not> \<bar>6992 / 8192 - 0.8536\<bar> \<le> (1 / 10 ^ 9 :: real)"
    by simp
  ultimately show ?thesis
    using far by blast
qed

text \<open>
  Claim C9, amended. For 8192 shots and a response in which the winning counts of every
  descriptor sum to the rounded expectation \<open>theoretical_wins 8192 = 6992\<close>, the
  value returned is exactly 6992/8192; it is within \<open>10\<^sup>-\<^sup>4\<close> of 0.8536 and within half
  a count, 1/16384, of \<open>cos\<^sup>2 (\<pi>/8)\<close>.
\<close>

theorem theoretical_response_value:
  assumes "backend (chsh_batch a0 a1 b0 b1) 8192 = Inr res" and "length res = 4"
    and "\<forall>i<3. count_of (res ! i) ''00'' + count_of (res ! i) ''11'' = theoretical_wins 8192"
    and "count_of (res ! 3) ''01'' + count_of (res ! 3) ''10'' = theoretical_wins 8192"
  shows "winning_probability backend 8192 a0 a1 b0 b1 = Inr (6992 / 8192)
     \<and> \<bar>6992 / 8192 - 0.8536\<bar> \<le> (1 / 10 ^ 4 :: real)
     \<and> \<bar>6992 / 8192 - (cos (pi / 8))\<^sup>2\<bar> \<le> 1 / 16384"
proof -
  have w: "count_of (res ! 0) ''00'' + count_of (res ! 0) ''11'' = 6992"
      "count_of (res ! 1) ''00'' + count_of (res ! 1) ''11'' = 6992"
      "count_of (res ! 2) ''00'' + count_of (res ! 2) ''11'' = 6992"
      "count_of (res ! 3) ''01'' + count_of (res ! 3) ''10'' = 6992"
    using assms(3,4) by (simp_all add: theoretical_wins_8192)
  have "win_sum res = 4 * 6992"
    unfolding win_sum_def using w by linarith
  then have "winning_probability backend 8192 a0 a1 b0 b1 = Inr (6992 / 8192)"
    using assms(1,2) by (simp add: winning_probability_response true_div_27968_32768)
  moreover have "\<bar>6992 / 8192 - 0.8536\<bar> \<le> (1 / 10 ^ 4 :: real)"
    by simp
  moreover have "\<bar>6992 / 8192 - (cos (pi / 8))\<^sup>2\<bar> \<le> 1 / 16384"
    unfolding cos_pi_8_squared using sqrt_2_lower sqrt_2_upper by (simp add: abs_le_iff)
  ultimately show ?thesis by blast
qed

theorem theoretical_response_value_witness:
  "winning_probability theoretical_backend 8192 0 (pi / 2) (pi / 4) (- pi / 4)
     = Inr (6992 / 8192)
   \<and> \<bar>6992 / 8192 - 0.8536\<bar> \<le> (1 / 10 ^ 4 :: real)
   \<and> \<bar>6992 / 8192 - (cos (pi / 8))\<^sup>2\<bar> \<le> 1 / 16384"
proof (rule theoretical_response_value)
  show "theoretical_backend (chsh_batch 0 (pi / 2) (pi / 4) (- pi / 4)) 8192 =
      Inr [theoretical_counts 8192 True, theoretical_counts 8192 True,
           theoretical_counts 8192 True, theoretical_counts 8192 False]"
    by (simp add: theoretical_backend_def)
  show "length [theoretical_counts 8192 True, theoretical_counts 8192 True,
           theoretical_counts 8192 True, theoretical_counts 8192 False] = 4"
    by simp
  show "\<forall>i<3. count_of ([theoretical_counts 8192 True, theoretical_counts 8192 True,
           theoretical_counts 8192 True, theoretical_counts 8192 False] ! i) ''00''
         + count_of ([theoretical_counts 8192 True, theoretical_counts 8192 True,
           theoretical_counts 8192 True, theoretical_counts 8192 False] ! i) ''11''
         = theoretical_wins 8192"
    by (simp add: theoretical_counts_8192 theoretical_wins_8192 count_of_def
        less_Suc_eq numeral_3_eq_3)
  show "count_of ([theoretical_counts 8192 True, theoretical_counts 8192 True,
           theoretical_counts 8192 True, theoretical_counts 8192 False] ! 3) ''01''
         + count_of ([theoretical_counts 8192 True, theoretical_counts 8192 True,
           theoretical_counts 8192 True, theoretical_counts 8192 False] ! 3) ''10''
         = theoretical_wins 8192"
    by (simp add: theoretical_counts_8192 theoretical_wins_8192 count_of_def)
qed

end
